theory Spec2Isabelle
  imports Main "HOL-Library.Multiset"
begin

section \<open>The bag consumed by the poll\<close>

text \<open>
  The poll of \<^verbatim>\<open>snow/consensus/snowman/poll/analyzer.go\<close> keeps two values of type
  \<^verbatim>\<open>bag.Bag\<close>: the validators still expected to answer (\<^verbatim>\<open>polled\<close>) and the tally
  (\<^verbatim>\<open>votes\<close>). The package \<^verbatim>\<open>utils/bag\<close> is not part of the sources at hand, so the
  five methods the poll calls are taken from section 3 of the specification: a bag is a
  finite mapping from keys to positive counts, which is a HOL multiset. Go's \<^verbatim>\<open>int\<close> is
  read as an unbounded integer: every count and length that occurs is bounded by the
  length of the seeded bag.
\<close>

type_synonym 'a Bag = "'a multiset"

text \<open>Modelled from the spec: \<^verbatim>\<open>Bag.Len\<close> of utils/bag, "len(): sum of counts".\<close>

definition Len :: "'a Bag \<Rightarrow> int" where
  "Len b = int (size b)"

text \<open>Modelled from the spec: \<^verbatim>\<open>Bag.Count\<close> of utils/bag, "count(t): count for t (0 if absent)".\<close>

definition Count :: "'a Bag \<Rightarrow> 'a \<Rightarrow> int" where
  "Count b t = int (count b t)"

text \<open>
  Modelled from the spec: \<^verbatim>\<open>Bag.AddCount\<close> of utils/bag, "add_count(t, n): increment".
  Counts stay positive, so an increment that is not positive adds nothing.
\<close>

definition AddCount :: "'a \<Rightarrow> int \<Rightarrow> 'a Bag \<Rightarrow> 'a Bag" where
  "AddCount t n b = b + replicate_mset (nat n) t"

text \<open>
  Modelled from the spec: \<^verbatim>\<open>Bag.Remove\<close> of utils/bag, "remove(t): drop all occurrences
  of t".
\<close>

definition Remove :: "'a \<Rightarrow> 'a Bag \<Rightarrow> 'a Bag" where
  "Remove t b = filter_mset (\<lambda>x. x \<noteq> t) b"

text \<open>
  Modelled from the spec: the second component of \<^verbatim>\<open>Bag.Mode\<close> of utils/bag, "mode(): a
  key with the maximum count and that count", with "freq = 0 if empty". The poll discards
  the key (\<^verbatim>\<open>_, freq := p.votes.Mode()\<close>), whose choice among ties the specification leaves
  open, so only the frequency is modelled.
\<close>

definition ModeFreq :: "'a Bag \<Rightarrow> int" where
  "ModeFreq b = (if b = {#} then 0 else int (Max (count b ` set_mset b)))"

section \<open>Metrics\<close>

text \<open>
  \<^verbatim>\<open>earlyTermNoTraversalMetrics\<close> holds four gauges and four counters, one pair for each
  termination reason. A counter is the number of \<^verbatim>\<open>Inc\<close> calls it has seen; a gauge is the
  sum of the nanoseconds passed to \<^verbatim>\<open>Add\<close> (the conversion to \<^verbatim>\<open>float64\<close> is left out).
\<close>

record earlyTermNoTraversalMetrics =
  durExhaustedPolls :: int
  durEarlyFailPolls :: int
  durEarlyAlphaPrefPolls :: int
  durEarlyAlphaConfPolls :: int
  countExhaustedPolls :: nat
  countEarlyFailPolls :: nat
  countEarlyAlphaPrefPolls :: nat
  countEarlyAlphaConfPolls :: nat

definition observeExhausted :: "int \<Rightarrow> earlyTermNoTraversalMetrics \<Rightarrow> earlyTermNoTraversalMetrics" where
  "observeExhausted duration m =
     m\<lparr>durExhaustedPolls := durExhaustedPolls m + duration,
       countExhaustedPolls := countExhaustedPolls m + 1\<rparr>"

definition observeEarlyFail :: "int \<Rightarrow> earlyTermNoTraversalMetrics \<Rightarrow> earlyTermNoTraversalMetrics" where
  "observeEarlyFail duration m =
     m\<lparr>durEarlyFailPolls := durEarlyFailPolls m + duration,
       countEarlyFailPolls := countEarlyFailPolls m + 1\<rparr>"

definition observeEarlyAlphaPref :: "int \<Rightarrow> earlyTermNoTraversalMetrics \<Rightarrow> earlyTermNoTraversalMetrics" where
  "observeEarlyAlphaPref duration m =
     m\<lparr>durEarlyAlphaPrefPolls := durEarlyAlphaPrefPolls m + duration,
       countEarlyAlphaPrefPolls := countEarlyAlphaPrefPolls m + 1\<rparr>"

definition observeEarlyAlphaConf :: "int \<Rightarrow> earlyTermNoTraversalMetrics \<Rightarrow> earlyTermNoTraversalMetrics" where
  "observeEarlyAlphaConf duration m =
     m\<lparr>durEarlyAlphaConfPolls := durEarlyAlphaConfPolls m + duration,
       countEarlyAlphaConfPolls := countEarlyAlphaConfPolls m + 1\<rparr>"

text \<open>The number of observations a metrics value has recorded, over all four reasons.\<close>

definition observations :: "earlyTermNoTraversalMetrics \<Rightarrow> nat" where
  "observations m =
     countExhaustedPolls m + countEarlyFailPolls m
       + countEarlyAlphaPrefPolls m + countEarlyAlphaConfPolls m"

definition noMetrics :: earlyTermNoTraversalMetrics where
  "noMetrics =
     \<lparr>durExhaustedPolls = 0, durEarlyFailPolls = 0,
      durEarlyAlphaPrefPolls = 0, durEarlyAlphaConfPolls = 0,
      countExhaustedPolls = 0, countEarlyFailPolls = 0,
      countEarlyAlphaPrefPolls = 0, countEarlyAlphaConfPolls = 0\<rparr>"

section \<open>The poll\<close>

text \<open>
  \<^verbatim>\<open>earlyTermNoTraversalPoll\<close>. The field \<^verbatim>\<open>metrics\<close> is a pointer in the source; here the
  poll carries the value it points to, which is what one poll can observe of it. The
  factory never hands out a poll with a nil pointer. \<^verbatim>\<open>start\<close> is a clock reading in
  nanoseconds.
\<close>

record ('n, 'i) earlyTermNoTraversalPoll =
  votes :: "'i Bag"
  polled :: "'n Bag"
  alphaPreference :: int
  alphaConfidence :: int
  confidences :: "int list"
  metrics :: earlyTermNoTraversalMetrics
  start :: int
  finished :: bool

text \<open>\<^verbatim>\<open>Vote\<close> and \<open>Drop\<close>, statement by statement.\<close>

definition Vote :: "'n \<Rightarrow> 'i \<Rightarrow> ('n, 'i) earlyTermNoTraversalPoll \<Rightarrow> ('n, 'i) earlyTermNoTraversalPoll" where
  "Vote vdr vote p =
     (let count = Count (polled p) vdr;
          p1 = p\<lparr>polled := Remove vdr (polled p)\<rparr>
      in p1\<lparr>votes := AddCount vote count (votes p1)\<rparr>)"

definition Drop :: "'n \<Rightarrow> ('n, 'i) earlyTermNoTraversalPoll \<Rightarrow> ('n, 'i) earlyTermNoTraversalPoll" where
  "Drop vdr p = p\<lparr>polled := Remove vdr (polled p)\<rparr>"

text \<open>
  Go panics when a slice is read out of range. \<open>at xs i\<close> is \<^verbatim>\<open>xs[i]\<close>, with \<open>None\<close> for the
  panic.
\<close>

definition at :: "int list \<Rightarrow> int \<Rightarrow> int option" where
  "at xs i = (if 0 \<le> i \<and> i < int (length xs) then Some (xs ! nat i) else None)"

text \<open>
  The loop of \<^verbatim>\<open>shouldTerminateEarlyErrDriven\<close> from index \<open>i\<close> on: \<open>Some True\<close> when its
  body returns, \<open>Some False\<close> when it runs to its end. The conjunction \<^verbatim>\<open>&&\<close> reads
  \<^verbatim>\<open>confidences[i+1]\<close> only after \<^verbatim>\<open>freq >= confidences[i]\<close> has held.
\<close>

function errDrivenLoop :: "int list \<Rightarrow> int \<Rightarrow> int \<Rightarrow> int \<Rightarrow> bool option" where
  "errDrivenLoop C freq maxPossibleVotes i =
     (if i < int (length C) - 1 then
        (case at C i of
           None \<Rightarrow> None
         | Some ci \<Rightarrow>
             if freq \<ge> ci then
               (case at C (i + 1) of
                  None \<Rightarrow> None
                | Some cj \<Rightarrow>
                    if maxPossibleVotes < cj then Some True
                    else errDrivenLoop C freq maxPossibleVotes (i + 1))
             else errDrivenLoop C freq maxPossibleVotes (i + 1))
      else Some False)"
  by pat_completeness auto
termination
  by (relation "measure (\<lambda>(C, freq, maxPossibleVotes, i). nat (int (length C) - 1 - i))") auto

declare errDrivenLoop.simps [simp del]

text \<open>
  \<^verbatim>\<open>shouldTerminateEarlyErrDriven\<close>: the result pair and the poll with the metrics it
  observed, or \<open>None\<close> for a panic. \<open>now\<close> is the clock reading \<^verbatim>\<open>time.Since\<close> takes.
\<close>

definition shouldTerminateEarlyErrDriven ::
  "int \<Rightarrow> int \<Rightarrow> int \<Rightarrow> ('n, 'i) earlyTermNoTraversalPoll
     \<Rightarrow> ((bool \<times> int) \<times> ('n, 'i) earlyTermNoTraversalPoll) option" where
  "shouldTerminateEarlyErrDriven now freq maxPossibleVotes p =
     (case at (confidences p) (int (length (confidences p)) - 1) of
        None \<Rightarrow> None
      | Some ctop \<Rightarrow>
          if freq \<ge> ctop then
            Some ((True, 4), p\<lparr>metrics := observeEarlyAlphaConf (now - start p) (metrics p)\<rparr>)
          else if freq < alphaPreference p then Some ((False, 0), p)
          else
            (case at (confidences p) 0 of
               None \<Rightarrow> None
             | Some c0 \<Rightarrow>
                 if maxPossibleVotes < c0 then
                   Some ((True, 3), p\<lparr>metrics := observeEarlyAlphaPref (now - start p) (metrics p)\<rparr>)
                 else
                   (case errDrivenLoop (confidences p) freq maxPossibleVotes 0 of
                      None \<Rightarrow> None
                    | Some hit \<Rightarrow>
                        if hit then
                          Some ((True, 3),
                                p\<lparr>metrics := observeEarlyAlphaPref (now - start p) (metrics p)\<rparr>)
                        else Some ((False, 0), p))))"

text \<open>\<^verbatim>\<open>finishedAndReason\<close>, with the source's order of checks.\<close>

definition finishedAndReason ::
  "int \<Rightarrow> ('n, 'i) earlyTermNoTraversalPoll
     \<Rightarrow> ((bool \<times> int) \<times> ('n, 'i) earlyTermNoTraversalPoll) option" where
  "finishedAndReason now p =
     (if finished p then Some ((True, 0), p)
      else
        let remaining = Len (polled p) in
        if remaining = 0 then
          Some ((True, 1),
                p\<lparr>finished := True, metrics := observeExhausted (now - start p) (metrics p)\<rparr>)
        else
          let received = Len (votes p);
              maxPossibleVotes = received + remaining in
          if maxPossibleVotes < alphaPreference p then
            Some ((True, 2),
                  p\<lparr>finished := True, metrics := observeEarlyFail (now - start p) (metrics p)\<rparr>)
          else
            let freq = ModeFreq (votes p) in
            if length (confidences p) > 0 then
              (case shouldTerminateEarlyErrDriven now freq maxPossibleVotes p of
                 None \<Rightarrow> None
               | Some ((fin, reason), p') \<Rightarrow>
                   if fin then Some ((True, reason), p'\<lparr>finished := True\<rparr>)
                   else Some ((False, 0), p'))
            else if freq \<ge> alphaPreference p \<and> maxPossibleVotes < alphaConfidence p then
              Some ((True, 3),
                    p\<lparr>finished := True,
                      metrics := observeEarlyAlphaPref (now - start p) (metrics p)\<rparr>)
            else if freq \<ge> alphaConfidence p then
              Some ((True, 4),
                    p\<lparr>finished := True,
                      metrics := observeEarlyAlphaConf (now - start p) (metrics p)\<rparr>)
            else Some ((False, 0), p))"

text \<open>\<^verbatim>\<open>Finished\<close> drops the reason; \<^verbatim>\<open>Result\<close> returns the tally.\<close>

definition Finished ::
  "int \<Rightarrow> ('n, 'i) earlyTermNoTraversalPoll \<Rightarrow> (bool \<times> ('n, 'i) earlyTermNoTraversalPoll) option" where
  "Finished now p =
     (case finishedAndReason now p of
        None \<Rightarrow> None
      | Some ((fin, reason), p') \<Rightarrow> Some (fin, p'))"

definition Result :: "('n, 'i) earlyTermNoTraversalPoll \<Rightarrow> 'i Bag" where
  "Result p = votes p"

section \<open>The factory\<close>

text \<open>
  The registry is the Prometheus library's; the factory sees it through \<^verbatim>\<open>Register\<close> only.
  Here it is a parameter: \<open>register name reg\<close> either rejects the metric with an error or
  returns the registry that holds it.
\<close>

datatype sentinel = errPollDurationVectorMetrics | errPollCountVectorMetrics

text \<open>\<^verbatim>\<open>fmt.Errorf("%w: %w", s, err)\<close> wraps the sentinel \<open>s\<close> and the registry's error.\<close>

datatype 'e wrapped = Wrapped sentinel 'e

definition newEarlyTermNoTraversalMetrics ::
  "(string \<Rightarrow> 'r \<Rightarrow> 'e + 'r) \<Rightarrow> 'r \<Rightarrow> 'e wrapped + (earlyTermNoTraversalMetrics \<times> 'r)" where
  "newEarlyTermNoTraversalMetrics register reg =
     (case register ''poll_count'' reg of
        Inl err \<Rightarrow> Inl (Wrapped errPollCountVectorMetrics err)
      | Inr reg1 \<Rightarrow>
          (case register ''poll_duration'' reg1 of
             Inl err \<Rightarrow> Inl (Wrapped errPollDurationVectorMetrics err)
           | Inr reg2 \<Rightarrow> Inr (noMetrics, reg2)))"

record earlyTermNoTraversalFactory =
  alphaPreference_f :: int
  alphaConfidence_f :: int
  alphaConfidences_f :: "int list"
  metrics_f :: earlyTermNoTraversalMetrics

definition NewEarlyTermNoTraversalFactory ::
  "int \<Rightarrow> int \<Rightarrow> (string \<Rightarrow> 'r \<Rightarrow> 'e + 'r) \<Rightarrow> 'r \<Rightarrow> int list
     \<Rightarrow> 'e wrapped + (earlyTermNoTraversalFactory \<times> 'r)" where
  "NewEarlyTermNoTraversalFactory alphaPref alphaConf register reg alphaConfs =
     (case newEarlyTermNoTraversalMetrics register reg of
        Inl err \<Rightarrow> Inl err
      | Inr (m, reg') \<Rightarrow>
          Inr (\<lparr>alphaPreference_f = alphaPref, alphaConfidence_f = alphaConf,
                alphaConfidences_f = alphaConfs, metrics_f = m\<rparr>, reg'))"

text \<open>
  \<^verbatim>\<open>earlyTermNoTraversalFactory.New\<close>; \<open>now\<close> is the reading of \<^verbatim>\<open>time.Now()\<close>. The tally
  starts as the zero value of the bag.
\<close>

definition New :: "earlyTermNoTraversalFactory \<Rightarrow> 'n Bag \<Rightarrow> int \<Rightarrow> ('n, 'i) earlyTermNoTraversalPoll" where
  "New f vdrs now =
     \<lparr>votes = {#}, polled = vdrs,
      alphaPreference = alphaPreference_f f, alphaConfidence = alphaConfidence_f f,
      confidences = alphaConfidences_f f, metrics = metrics_f f,
      start = now, finished = False\<rparr>"

text \<open>
  A registry for running the factory: the list of registered names, which rejects a name
  it already holds.
\<close>

datatype regError = AlreadyRegistered string

definition registerName :: "string \<Rightarrow> string list \<Rightarrow> regError + string list" where
  "registerName name reg = (if name \<in> set reg then Inl (AlreadyRegistered name) else Inr (name # reg))"

section \<open>Sequences of calls\<close>

datatype ('n, 'i) call = CallVote 'n 'i | CallDrop 'n | CallFinished int | CallResult

datatype 'i returned = NoOutput | FinishedReturned bool int | ResultReturned "'i Bag"

text \<open>
  One call on a poll: what it returns and the poll after it. \<open>CallFinished now\<close> is a call
  of \<^verbatim>\<open>Finished\<close> at clock reading \<open>now\<close>; its output keeps the reason that
  \<^verbatim>\<open>finishedAndReason\<close> returns beside the boolean.
\<close>

fun step ::
  "('n, 'i) call \<Rightarrow> ('n, 'i) earlyTermNoTraversalPoll
     \<Rightarrow> ('i returned \<times> ('n, 'i) earlyTermNoTraversalPoll) option" where
  "step (CallVote vdr vote) p = Some (NoOutput, Vote vdr vote p)"
| "step (CallDrop vdr) p = Some (NoOutput, Drop vdr p)"
| "step (CallFinished now) p =
     (case finishedAndReason now p of
        None \<Rightarrow> None
      | Some ((fin, reason), p') \<Rightarrow> Some (FinishedReturned fin reason, p'))"
| "step CallResult p = Some (ResultReturned (Result p), p)"

fun run ::
  "('n, 'i) call list \<Rightarrow> ('n, 'i) earlyTermNoTraversalPoll
     \<Rightarrow> ('i returned list \<times> ('n, 'i) earlyTermNoTraversalPoll) option" where
  "run [] p = Some ([], p)"
| "run (c # cs) p =
     (case step c p of
        None \<Rightarrow> None
      | Some (out, p') \<Rightarrow>
          (case run cs p' of
             None \<Rightarrow> None
           | Some (outs, p'') \<Rightarrow> Some (out # outs, p'')))"

section \<open>Notions used to state the properties\<close>

text \<open>
  The observation that belongs to a reason code of \<^verbatim>\<open>finishedAndReason\<close>: 1 exhausted,
  2 early fail, 3 early alpha preference, 4 early alpha confidence; no other code observes.
\<close>

definition observeReason :: "int \<Rightarrow> int \<Rightarrow> earlyTermNoTraversalMetrics \<Rightarrow> earlyTermNoTraversalMetrics" where
  "observeReason reason duration m =
     (if reason = 1 then observeExhausted duration m
      else if reason = 2 then observeEarlyFail duration m
      else if reason = 3 then observeEarlyAlphaPref duration m
      else if reason = 4 then observeEarlyAlphaConf duration m
      else m)"

text \<open>The poll after a call of \<^verbatim>\<open>finishedAndReason\<close> that returned \<open>reason\<close> at time \<open>now\<close>.\<close>

definition closedWith ::
  "int \<Rightarrow> int \<Rightarrow> ('n, 'i) earlyTermNoTraversalPoll \<Rightarrow> ('n, 'i) earlyTermNoTraversalPoll" where
  "closedWith reason now p =
     (if reason = 0 then p
      else p\<lparr>finished := True, metrics := observeReason reason (now - start p) (metrics p)\<rparr>)"

text \<open>Every answer of \<^verbatim>\<open>Finished\<close> in a list of outputs is true.\<close>

fun answersTrue :: "'i returned list \<Rightarrow> bool" where
  "answersTrue [] = True"
| "answersTrue (FinishedReturned b reason # outs) = (b \<and> answersTrue outs)"
| "answersTrue (out # outs) = answersTrue outs"

text \<open>After the first true answer of \<^verbatim>\<open>Finished\<close>, every later answer is true.\<close>

fun latched :: "'i returned list \<Rightarrow> bool" where
  "latched [] = True"
| "latched (FinishedReturned b reason # outs) = (if b then answersTrue outs else latched outs)"
| "latched (out # outs) = latched outs"

section \<open>Polls to run\<close>

text \<open>Single threshold: three validators, both thresholds 2, created at time 100.\<close>

definition exampleFactory :: earlyTermNoTraversalFactory where
  "exampleFactory =
     \<lparr>alphaPreference_f = 2, alphaConfidence_f = 2, alphaConfidences_f = [], metrics_f = noMetrics\<rparr>"

definition examplePoll :: "(nat, nat) earlyTermNoTraversalPoll" where
  "examplePoll = New exampleFactory {#10, 11, 12#} 100"

text \<open>
  Error driven: five validators, thresholds 2 and 4, preference threshold 2. The single
  threshold 9 is out of reach of five validators.
\<close>

definition errDrivenFactory :: earlyTermNoTraversalFactory where
  "errDrivenFactory =
     \<lparr>alphaPreference_f = 2, alphaConfidence_f = 9, alphaConfidences_f = [2, 4],
      metrics_f = noMetrics\<rparr>"

definition errDrivenPoll :: "(nat, nat) earlyTermNoTraversalPoll" where
  "errDrivenPoll = New errDrivenFactory {#10, 11, 12, 13, 14#} 100"

text \<open>
  The single-threshold poll after validators 10 and 11 voted for 7 and \<^verbatim>\<open>Finished\<close> was
  called at time 150: it has closed with reason 4, and validator 12 is still outstanding.
\<close>

definition closedPoll :: "(nat, nat) earlyTermNoTraversalPoll" where
  "closedPoll = closedWith 4 150 (Vote 11 7 (Vote 10 7 examplePoll))"

section \<open>Facts about the bag\<close>

lemma Len_nonneg: "0 \<le> Len b"
  by (simp add: Len_def)

lemma Count_nonneg: "0 \<le> Count b t"
  by (simp add: Count_def)

lemma ModeFreq_nonneg: "0 \<le> ModeFreq b"
  by (simp add: ModeFreq_def)

lemma ModeFreq_le_Len: "ModeFreq b \<le> Len b"
proof (cases "b = {#}")
  case True
  then show ?thesis by (simp add: ModeFreq_def Len_def)
next
  case False
  then have ne: "count b ` set_mset b \<noteq> {}" by simp
  have "Max (count b ` set_mset b) \<in> count b ` set_mset b"
    using ne by (intro Max_in) simp_all
  then obtain x where "Max (count b ` set_mset b) = count b x" by auto
  then show ?thesis using False by (simp add: ModeFreq_def Len_def count_le_size)
qed

lemma size_filter_neq: "size (filter_mset (\<lambda>x. x \<noteq> t) b) + count b t = size b"
  by (induction b) auto

lemma Len_Remove: "Len (Remove t b) = Len b - Count b t"
  using size_filter_neq [of t b] by (simp add: Len_def Remove_def Count_def)

lemma Len_AddCount: "Len (AddCount t n b) = Len b + max 0 n"
  by (simp add: Len_def AddCount_def)

lemma Count_Remove: "Count (Remove t b) x = (if x = t then 0 else Count b x)"
  by (simp add: Count_def Remove_def)

lemma Count_AddCount:
  "Count (AddCount t n b) x = (if x = t then Count b x + max 0 n else Count b x)"
  by (simp add: Count_def AddCount_def)

text \<open>The definitions that evaluate the example polls.\<close>

lemmas example_defs =
  examplePoll_def exampleFactory_def errDrivenPoll_def errDrivenFactory_def New_def
  Vote_def Drop_def Len_def Count_def AddCount_def Remove_def ModeFreq_def Let_def

section \<open>Reading the confidences\<close>

lemma at_last: "C \<noteq> [] \<Longrightarrow> at C (int (length C) - 1) = Some (last C)"
  by (cases C rule: rev_cases) (simp_all add: at_def nat_diff_distrib')

lemma at_0: "C \<noteq> [] \<Longrightarrow> at C 0 = Some (C ! 0)"
  by (simp add: at_def)

lemma at_Nil: "at [] i = None"
  by (simp add: at_def)

text \<open>
  The loop started at a valid index never panics, and it returns true exactly when some
  adjacent pair of thresholds from that index on encloses the tally: the lower one is
  reached, the upper one is out of reach.
\<close>

lemma errDrivenLoop_eq:
  "0 \<le> i \<Longrightarrow> errDrivenLoop C freq maxP i =
     Some (\<exists>j. i \<le> j \<and> j + 1 < int (length C) \<and> freq \<ge> C ! nat j \<and> maxP < C ! nat (j + 1))"
proof (induction C freq maxP i rule: errDrivenLoop.induct)
  case (1 C freq maxP i)
  let ?P = "\<lambda>i. \<exists>j. i \<le> j \<and> j + 1 < int (length C) \<and> freq \<ge> C ! nat j \<and> maxP < C ! nat (j + 1)"
  show ?case
  proof (cases "i < int (length C) - 1")
    case False
    then have "\<not> ?P i" by auto
    with False show ?thesis by (subst errDrivenLoop.simps) simp
  next
    case True
    have ati: "at C i = Some (C ! nat i)" and atj: "at C (i + 1) = Some (C ! nat (i + 1))"
      using True \<open>0 \<le> i\<close> by (simp_all add: at_def)
    have split: "?P i \<longleftrightarrow> (freq \<ge> C ! nat i \<and> maxP < C ! nat (i + 1)) \<or> ?P (i + 1)"
    proof
      assume "?P i"
      then obtain j where j: "i \<le> j" "j + 1 < int (length C)" "freq \<ge> C ! nat j" "maxP < C ! nat (j + 1)"
        by blast
      show "(freq \<ge> C ! nat i \<and> maxP < C ! nat (i + 1)) \<or> ?P (i + 1)"
      proof (cases "j = i")
        case True
        with j show ?thesis by simp
      next
        case False
        with j have "i + 1 \<le> j" by simp
        with j show ?thesis by blast
      qed
    next
      assume "(freq \<ge> C ! nat i \<and> maxP < C ! nat (i + 1)) \<or> ?P (i + 1)"
      then show "?P i"
      proof
        assume "freq \<ge> C ! nat i \<and> maxP < C ! nat (i + 1)"
        with True show ?thesis by (intro exI [of _ i]) simp
      next
        assume "?P (i + 1)"
        then obtain j where "i + 1 \<le> j" "j + 1 < int (length C)" "freq \<ge> C ! nat j" "maxP < C ! nat (j + 1)"
          by blast
        then show ?thesis by (intro exI [of _ j]) simp
      qed
    qed
    show ?thesis
    proof (cases "freq \<ge> C ! nat i")
      case ge: True
      show ?thesis
      proof (cases "maxP < C ! nat (i + 1)")
        case True
        with ge \<open>i < int (length C) - 1\<close> ati atj split show ?thesis
          by (subst errDrivenLoop.simps) simp
      next
        case False
        have "errDrivenLoop C freq maxP (i + 1) = Some (?P (i + 1))"
          using "1.IH"(1) [OF \<open>i < int (length C) - 1\<close> ati ge atj False] \<open>0 \<le> i\<close> by simp
        with False ge \<open>i < int (length C) - 1\<close> ati atj split show ?thesis
          by (subst errDrivenLoop.simps) simp
      qed
    next
      case False
      have "errDrivenLoop C freq maxP (i + 1) = Some (?P (i + 1))"
        using "1.IH"(2) [OF \<open>i < int (length C) - 1\<close> ati] False \<open>0 \<le> i\<close> by simp
      with False \<open>i < int (length C) - 1\<close> ati split show ?thesis
        by (subst errDrivenLoop.simps) simp
    qed
  qed
qed

lemma errDrivenLoop_0:
  "errDrivenLoop C freq maxP 0 =
     Some (\<exists>i. Suc i < length C \<and> freq \<ge> C ! i \<and> maxP < C ! Suc i)"
proof -
  have "(\<exists>j::int. 0 \<le> j \<and> j + 1 < int (length C) \<and> freq \<ge> C ! nat j \<and> maxP < C ! nat (j + 1))
        \<longleftrightarrow> (\<exists>i. Suc i < length C \<and> freq \<ge> C ! i \<and> maxP < C ! Suc i)" (is "?L \<longleftrightarrow> ?R")
  proof
    assume ?L
    then obtain j :: int where j: "0 \<le> j" "j + 1 < int (length C)" "freq \<ge> C ! nat j" "maxP < C ! nat (j + 1)"
      by blast
    then have "Suc (nat j) < length C" "nat (j + 1) = Suc (nat j)" by simp_all
    with j show ?R by (intro exI [of _ "nat j"]) simp
  next
    assume ?R
    then obtain i where i: "Suc i < length C" "freq \<ge> C ! i" "maxP < C ! Suc i" by blast
    have "nat (int i + 1) = Suc i" by simp
    with i show ?L by (intro exI [of _ "int i"]) simp
  qed
  with errDrivenLoop_eq [of 0 C freq maxP] show ?thesis by simp
qed

lemma shouldTerminateEarlyErrDriven_eq:
  assumes "confidences p \<noteq> []"
  shows "shouldTerminateEarlyErrDriven now freq maxP p =
     (if freq \<ge> last (confidences p) then
        Some ((True, 4), p\<lparr>metrics := observeEarlyAlphaConf (now - start p) (metrics p)\<rparr>)
      else if freq < alphaPreference p then Some ((False, 0), p)
      else if maxP < confidences p ! 0
              \<or> (\<exists>i. Suc i < length (confidences p) \<and> freq \<ge> confidences p ! i
                       \<and> maxP < confidences p ! Suc i) then
        Some ((True, 3), p\<lparr>metrics := observeEarlyAlphaPref (now - start p) (metrics p)\<rparr>)
      else Some ((False, 0), p))"
  using assms
  by (auto simp add: shouldTerminateEarlyErrDriven_def at_last at_0 errDrivenLoop_0)

section \<open>The termination predicate\<close>

text \<open>
  Every call of \<^verbatim>\<open>finishedAndReason\<close> returns, with a reason code between 0 and 4; it
  answers true on a latched poll and on a poll it closes, and the poll it leaves is the
  one it was given, closed with the reason returned.
\<close>

lemma finishedAndReason_closedWith:
  "\<exists>reason. finishedAndReason now p = Some ((finished p \<or> reason \<noteq> 0, reason), closedWith reason now p)
      \<and> (finished p \<longrightarrow> reason = 0) \<and> 0 \<le> reason \<and> reason \<le> 4"
proof (cases "finished p")
  case True
  then show ?thesis by (simp add: finishedAndReason_def closedWith_def)
next
  case nf: False
  show ?thesis
  proof (cases "confidences p = []")
    case True
    with nf show ?thesis
      by (simp add: finishedAndReason_def closedWith_def observeReason_def Let_def)
  next
    case False
    with nf show ?thesis
      by (simp add: finishedAndReason_def closedWith_def observeReason_def Let_def
          shouldTerminateEarlyErrDriven_eq)
  qed
qed

text \<open>
  Claim C1. Single-threshold mode: on a poll with no confidences that has not latched,
  \<^verbatim>\<open>Finished\<close> returns true exactly when the outstanding bag is empty (reason 1), or
  tally plus outstanding is below \<open>alphaPreference\<close> (reason 2), or the mode frequency
  has reached \<open>alphaPreference\<close> while tally plus outstanding is below
  \<open>alphaConfidence\<close> (reason 3), or the mode frequency has reached \<open>alphaConfidence\<close>
  (reason 4). The first rule that holds, in this order, is the reason returned and the
  reason observed in the metrics; when none holds the call returns false and the poll is
  unchanged. The mode frequency of an empty tally is 0.
\<close>

theorem finished_single_threshold:
  assumes "confidences p = []" and "\<not> finished p"
  shows "\<exists>reason.
     finishedAndReason now p = Some ((reason \<noteq> 0, reason), closedWith reason now p)
     \<and> Finished now p = Some (reason \<noteq> 0, closedWith reason now p)
     \<and> reason =
         (if Len (polled p) = 0 then 1
          else if Len (votes p) + Len (polled p) < alphaPreference p then 2
          else if ModeFreq (votes p) \<ge> alphaPreference p
                  \<and> Len (votes p) + Len (polled p) < alphaConfidence p then 3
          else if ModeFreq (votes p) \<ge> alphaConfidence p then 4
          else 0)
     \<and> (reason \<noteq> 0 \<longleftrightarrow>
          Len (polled p) = 0
          \<or> Len (votes p) + Len (polled p) < alphaPreference p
          \<or> (ModeFreq (votes p) \<ge> alphaPreference p
               \<and> Len (votes p) + Len (polled p) < alphaConfidence p)
          \<or> ModeFreq (votes p) \<ge> alphaConfidence p)
     \<and> (votes p = {#} \<longrightarrow> ModeFreq (votes p) = 0)"
  using assms
  by (simp add: finishedAndReason_def Finished_def closedWith_def observeReason_def Let_def ModeFreq_def)

theorem finished_single_threshold_witness:
  "confidences (Vote 11 7 (Vote 10 7 examplePoll)) = []
   \<and> \<not> finished (Vote 11 7 (Vote 10 7 examplePoll))
   \<and> Finished 150 (Vote 11 7 (Vote 10 7 examplePoll))
       = Some (True, closedWith 4 150 (Vote 11 7 (Vote 10 7 examplePoll)))"
proof -
  let ?p = "Vote 11 7 (Vote 10 7 examplePoll)"
  have h1: "confidences ?p = []" and h2: "\<not> finished ?p"
    by (simp_all add: example_defs)
  have v: "Len (polled ?p) = 1" "Len (votes ?p) = 2" "ModeFreq (votes ?p) = 2"
    "alphaPreference ?p = 2" "alphaConfidence ?p = 2"
    by (simp_all add: example_defs)
  from finished_single_threshold [OF h1 h2, of 150] v h1 h2 show ?thesis
    by auto
qed

text \<open>
  Claim C2. Error-driven mode: on a poll with confidences \<open>C\<close> that has not latched, the
  exhausted rule and the early-fail rule come first; then the poll closes with reason 4
  when the mode frequency has reached the last threshold; otherwise it stays open when
  the mode frequency is below \<open>alphaPreference\<close>; otherwise it closes with reason 3 when
  tally plus outstanding is below \<open>C ! 0\<close>, or when some adjacent pair \<open>C ! i\<close>,
  \<open>C ! (i + 1)\<close> has its lower threshold reached and its upper one out of reach;
  otherwise it stays open.
\<close>

theorem finished_error_driven:
  assumes "confidences p \<noteq> []" and "\<not> finished p"
  shows "\<exists>reason.
     finishedAndReason now p = Some ((reason \<noteq> 0, reason), closedWith reason now p)
     \<and> Finished now p = Some (reason \<noteq> 0, closedWith reason now p)
     \<and> reason =
         (if Len (polled p) = 0 then 1
          else if Len (votes p) + Len (polled p) < alphaPreference p then 2
          else if ModeFreq (votes p) \<ge> last (confidences p) then 4
          else if ModeFreq (votes p) < alphaPreference p then 0
          else if Len (votes p) + Len (polled p) < confidences p ! 0
                  \<or> (\<exists>i. i + 1 < length (confidences p)
                          \<and> ModeFreq (votes p) \<ge> confidences p ! i
                          \<and> Len (votes p) + Len (polled p) < confidences p ! (i + 1)) then 3
          else 0)"
  using assms
  by (auto simp add: finishedAndReason_def Finished_def closedWith_def observeReason_def Let_def
      shouldTerminateEarlyErrDriven_eq)

theorem finished_error_driven_witness:
  "confidences (Drop 13 (Drop 12 (Vote 11 7 (Vote 10 7 errDrivenPoll)))) \<noteq> []
   \<and> \<not> finished (Drop 13 (Drop 12 (Vote 11 7 (Vote 10 7 errDrivenPoll))))
   \<and> Finished 150 (Drop 13 (Drop 12 (Vote 11 7 (Vote 10 7 errDrivenPoll))))
       = Some (True, closedWith 3 150 (Drop 13 (Drop 12 (Vote 11 7 (Vote 10 7 errDrivenPoll)))))"
proof -
  let ?p = "Drop 13 (Drop 12 (Vote 11 7 (Vote 10 7 errDrivenPoll)))"
  have h1: "confidences ?p \<noteq> []" and h2: "\<not> finished ?p"
    by (simp_all add: example_defs)
  have v: "Len (polled ?p) = 1" "Len (votes ?p) = 2" "ModeFreq (votes ?p) = 2"
    "alphaPreference ?p = 2" "confidences ?p = [2, 4]"
    by (simp_all add: example_defs)
  have g: "\<exists>i. i + 1 < length (confidences ?p) \<and> ModeFreq (votes ?p) \<ge> confidences ?p ! i
      \<and> Len (votes ?p) + Len (polled ?p) < confidences ?p ! (i + 1)"
    by (rule exI [of _ 0]) (simp add: v)
  from finished_error_driven [OF h1 h2, of 150] v g h1 h2 show ?thesis
    by auto
qed

section \<open>Votes and drops\<close>

lemma Remove_absent: "Count b t = 0 \<Longrightarrow> Remove t b = b"
  by (auto simp: Count_def Remove_def filter_mset_eq_conv count_eq_zero_iff)

lemma Remove_eq_iff: "Remove t b = b \<longleftrightarrow> Count b t = 0"
proof
  assume "Remove t b = b"
  then have "Len (Remove t b) = Len b" by simp
  then show "Count b t = 0" by (simp add: Len_Remove)
qed (rule Remove_absent)

lemma AddCount_0: "AddCount t 0 b = b"
  by (simp add: AddCount_def)

text \<open>
  Neither \<^verbatim>\<open>Vote\<close> nor \<^verbatim>\<open>Drop\<close> reads the field \<^verbatim>\<open>finished\<close>. A poll that closed
  early still holds outstanding validators, and a vote of one of them after the poll
  closed is tallied like any other: here validator 12 votes for 8 on the closed poll.
\<close>

theorem vote_after_finished_counterexample:
  "run [CallVote 10 7, CallVote 11 7, CallFinished 150] examplePoll
     = Some ([NoOutput, NoOutput, FinishedReturned True 4], closedPoll)
   \<and> finished closedPoll
   \<and> votes closedPoll = {#7, 7#} \<and> polled closedPoll = {#12#}
   \<and> votes (Vote 12 8 closedPoll) = {#7, 7, 8#} \<and> polled (Vote 12 8 closedPoll) = {#}
   \<and> votes (Vote 12 8 closedPoll) \<noteq> votes closedPoll
   \<and> polled (Vote 12 8 closedPoll) \<noteq> polled closedPoll
   \<and> polled (Drop 12 closedPoll) \<noteq> polled closedPoll"
  by (simp add: closedPoll_def closedWith_def observeReason_def finishedAndReason_def example_defs)

text \<open>
  Claim C3, amended. On a poll whose finished flag is true, \<^verbatim>\<open>Vote\<close> and \<^verbatim>\<open>Drop\<close> keep
  the flag true, and they leave the tally and the outstanding bag unchanged exactly when
  the validator has no outstanding count; that is so for every validator once the
  outstanding bag is empty.
\<close>

theorem vote_drop_after_finished:
  assumes "finished p"
  shows "finished (Vote vdr vote p) \<and> finished (Drop vdr p)
    \<and> (votes (Vote vdr vote p) = votes p \<and> polled (Vote vdr vote p) = polled p
         \<longleftrightarrow> Count (polled p) vdr = 0)
    \<and> (votes (Drop vdr p) = votes p \<and> polled (Drop vdr p) = polled p
         \<longleftrightarrow> Count (polled p) vdr = 0)
    \<and> (Len (polled p) = 0 \<longrightarrow> Vote vdr vote p = p \<and> Drop vdr p = p)"
proof -
  have e: "Len (polled p) = 0 \<Longrightarrow> Count (polled p) vdr = 0"
    by (simp add: Len_def Count_def)
  show ?thesis using assms e
    by (auto simp: Vote_def Drop_def Let_def Remove_eq_iff AddCount_0 Remove_absent)
qed

theorem vote_drop_after_finished_witness:
  "finished closedPoll \<and> Vote 10 8 closedPoll = closedPoll \<and> Drop 11 closedPoll = closedPoll
   \<and> polled (Drop 12 closedPoll) \<noteq> polled closedPoll"
proof -
  have f: "finished closedPoll"
    by (simp add: closedPoll_def closedWith_def)
  have c: "Count (polled closedPoll) 10 = 0" "Count (polled closedPoll) 11 = 0"
    "Count (polled closedPoll) 12 \<noteq> 0"
    by (simp_all add: closedPoll_def closedWith_def example_defs)
  have "votes (Vote 10 8 closedPoll) = votes closedPoll \<and> polled (Vote 10 8 closedPoll) = polled closedPoll"
    using vote_drop_after_finished [OF f, of 10 8] c by simp
  moreover have "polled (Drop 11 closedPoll) = polled closedPoll"
    using vote_drop_after_finished [OF f, of 11 8] c by simp
  moreover have "polled (Drop 12 closedPoll) \<noteq> polled closedPoll"
    using vote_drop_after_finished [OF f, of 12 8] c by (simp add: Drop_def)
  ultimately show ?thesis using f
    by (simp add: Vote_def Drop_def Let_def)
qed

text \<open>
  Claim C4. \<^verbatim>\<open>Vote(v, id)\<close> zeroes the outstanding count \<open>c\<close> of \<open>v\<close> and leaves the other
  validators' counts alone; the tally of \<open>id\<close> grows by exactly \<open>c\<close> and no other tally
  changes. When \<open>c = 0\<close> the tally is unchanged, so a second vote of the same validator,
  for whatever id, changes nothing.
\<close>

theorem vote_effect:
  "Count (polled (Vote v vote p)) v = 0
   \<and> (\<forall>u. u \<noteq> v \<longrightarrow> Count (polled (Vote v vote p)) u = Count (polled p) u)
   \<and> Count (votes (Vote v vote p)) vote = Count (votes p) vote + Count (polled p) v
   \<and> (\<forall>x. x \<noteq> vote \<longrightarrow> Count (votes (Vote v vote p)) x = Count (votes p) x)
   \<and> (Count (polled p) v = 0 \<longrightarrow> votes (Vote v vote p) = votes p)
   \<and> Vote v vote' (Vote v vote p) = Vote v vote p"
proof -
  have "Count (polled (Vote v vote p)) v = 0"
    by (simp add: Vote_def Let_def Count_Remove)
  then have "Vote v vote' (Vote v vote p) = Vote v vote p"
    by (simp add: Vote_def [of v vote'] Let_def Remove_absent AddCount_0)
  then show ?thesis using Count_nonneg [of "polled p" v]
    by (simp add: Vote_def [of v vote] Let_def Count_Remove Count_AddCount AddCount_0)
qed

theorem vote_effect_witness:
  "Count (polled examplePoll) 10 = 1
   \<and> Count (polled (Vote 10 7 examplePoll)) 10 = 0
   \<and> Count (polled (Vote 10 7 examplePoll)) 11 = 1
   \<and> votes (Vote 10 7 examplePoll) = {#7#}
   \<and> votes (Vote 10 8 (Vote 10 7 examplePoll)) = {#7#}
   \<and> Len (polled (Vote 10 8 (Vote 10 7 examplePoll))) = 2"
proof -
  have a: "votes (Vote 10 7 examplePoll) = {#7#}" "Len (polled (Vote 10 7 examplePoll)) = 2"
    "Count (polled examplePoll) 10 = 1" "Count (polled examplePoll) 11 = 1"
    by (simp_all add: example_defs)
  have n: "(11::nat) \<noteq> 10" by simp
  from vote_effect [of 10 7 examplePoll 8]
  have "Vote 10 8 (Vote 10 7 examplePoll) = Vote 10 7 examplePoll"
    and "Count (polled (Vote 10 7 examplePoll)) 10 = 0"
    and "Count (polled (Vote 10 7 examplePoll)) 11 = Count (polled examplePoll) 11"
    using n by simp_all
  with a show ?thesis by simp
qed

section \<open>Runs\<close>

lemma closedWith_frame [simp]:
  "votes (closedWith reason now p) = votes p"
  "polled (closedWith reason now p) = polled p"
  "alphaPreference (closedWith reason now p) = alphaPreference p"
  "alphaConfidence (closedWith reason now p) = alphaConfidence p"
  "confidences (closedWith reason now p) = confidences p"
  "start (closedWith reason now p) = start p"
  by (simp_all add: closedWith_def)

lemma step_total:
  "\<exists>out q. step c p = Some (out, q)"
proof (cases c)
  case (CallFinished now)
  from finishedAndReason_closedWith [of now p] obtain reason where
    "finishedAndReason now p = Some ((finished p \<or> reason \<noteq> 0, reason), closedWith reason now p)"
    by blast
  with CallFinished show ?thesis by simp
qed simp_all

lemma step_lengths:
  assumes "step c p = Some (out, q)"
  shows "Len (votes q) + Len (polled q) \<le> Len (votes p) + Len (polled p)
         \<and> Len (polled q) \<le> Len (polled p)"
proof (cases c)
  case (CallVote vdr vote)
  with assms have "q = Vote vdr vote p" by simp
  then show ?thesis using Count_nonneg [of "polled p" vdr]
    by (simp add: Vote_def Let_def Len_Remove Len_AddCount)
next
  case (CallDrop vdr)
  with assms have "q = Drop vdr p" by simp
  then show ?thesis using Count_nonneg [of "polled p" vdr]
    by (simp add: Drop_def Len_Remove)
next
  case (CallFinished now)
  from finishedAndReason_closedWith [of now p] obtain reason where
    "finishedAndReason now p = Some ((finished p \<or> reason \<noteq> 0, reason), closedWith reason now p)"
    by blast
  with CallFinished assms have "q = closedWith reason now p" by simp
  then show ?thesis by simp
next
  case CallResult
  with assms show ?thesis by simp
qed

lemma run_lengths:
  "\<exists>outs q. run cs p = Some (outs, q)
     \<and> Len (votes q) + Len (polled q) \<le> Len (votes p) + Len (polled p)
     \<and> Len (polled q) \<le> Len (polled p)"
proof (induction cs arbitrary: p)
  case Nil
  show ?case by simp
next
  case (Cons c cs)
  from step_total [of c p] obtain out p1 where s: "step c p = Some (out, p1)" by blast
  from Cons.IH [of p1] obtain outs q where r: "run cs p1 = Some (outs, q)"
    and l: "Len (votes q) + Len (polled q) \<le> Len (votes p1) + Len (polled p1)"
       "Len (polled q) \<le> Len (polled p1)" by blast
  from step_lengths [OF s] l s r show ?case by simp
qed

text \<open>
  Claim C5. Every sequence of calls runs to its end, and over it neither the length of the
  outstanding bag nor the sum of the tally's and the outstanding bag's lengths grows; on
  a poll made by the factory from a bag of length \<open>k\<close> both stay at most \<open>k\<close>. \<^verbatim>\<open>Vote\<close>
  keeps the sum, \<^verbatim>\<open>Drop\<close> lowers it by the dropped validator's count.
\<close>

theorem bounded_accumulation:
  fixes p :: "('n, 'i) earlyTermNoTraversalPoll"
  shows "(\<exists>outs q. run cs (New f vdrs now) = Some (outs, q)
      \<and> Len (votes q) + Len (polled q) \<le> Len vdrs
      \<and> Len (polled q) \<le> Len vdrs)
   \<and> (\<exists>outs q. run cs p = Some (outs, q)
      \<and> Len (votes q) + Len (polled q) \<le> Len (votes p) + Len (polled p)
      \<and> Len (polled q) \<le> Len (polled p))
   \<and> Len (votes (Vote vdr vote p)) + Len (polled (Vote vdr vote p)) = Len (votes p) + Len (polled p)
   \<and> Len (votes (Drop vdr p)) + Len (polled (Drop vdr p))
        = Len (votes p) + Len (polled p) - Count (polled p) vdr"
proof -
  let ?n = "New f vdrs now :: ('n, 'i) earlyTermNoTraversalPoll"
  have n: "Len (votes ?n) = 0" "polled ?n = vdrs"
    by (simp_all add: New_def Len_def)
  from run_lengths [of cs ?n] n
  have 1: "\<exists>outs q. run cs ?n = Some (outs, q)
      \<and> Len (votes q) + Len (polled q) \<le> Len vdrs \<and> Len (polled q) \<le> Len vdrs"
    by simp
  have 3: "Len (votes (Vote vdr vote p)) + Len (polled (Vote vdr vote p)) = Len (votes p) + Len (polled p)"
    using Count_nonneg [of "polled p" vdr]
    by (simp add: Vote_def Let_def Len_Remove Len_AddCount)
  have 4: "Len (votes (Drop vdr p)) + Len (polled (Drop vdr p))
        = Len (votes p) + Len (polled p) - Count (polled p) vdr"
    by (simp add: Drop_def Len_Remove)
  from 1 run_lengths [of cs p] 3 4 show ?thesis by blast
qed

section \<open>The latch and the metrics\<close>

lemma finished_closedWith [simp]:
  "finished (closedWith reason now p) \<longleftrightarrow> finished p \<or> reason \<noteq> 0"
  by (simp add: closedWith_def)

lemma metrics_closedWith:
  "metrics (closedWith reason now p)
     = (if reason = 0 then metrics p else observeReason reason (now - start p) (metrics p))"
  by (simp add: closedWith_def)

lemma observations_observeReason:
  "1 \<le> reason \<Longrightarrow> reason \<le> 4 \<Longrightarrow> observations (observeReason reason d m) = observations m + 1"
  by (simp add: observeReason_def observations_def observeExhausted_def observeEarlyFail_def
      observeEarlyAlphaPref_def observeEarlyAlphaConf_def)

lemma step_finished:
  assumes "finished p"
  shows "\<exists>out q. step c p = Some (out, q) \<and> finished q \<and> metrics q = metrics p
           \<and> answersTrue [out]"
proof (cases c)
  case (CallFinished now)
  with assms show ?thesis by (simp add: finishedAndReason_def)
qed (use assms in \<open>simp_all add: Vote_def Drop_def Let_def\<close>)

lemma answersTrue_Cons: "answersTrue (out # outs) \<longleftrightarrow> answersTrue [out] \<and> answersTrue outs"
  by (cases out) simp_all

lemma run_finished:
  assumes "finished p"
  shows "\<exists>outs q. run cs p = Some (outs, q) \<and> finished q \<and> metrics q = metrics p
           \<and> answersTrue outs"
  using assms
proof (induction cs arbitrary: p)
  case Nil
  then show ?case by simp
next
  case (Cons c cs)
  from step_finished [OF Cons.prems, of c] obtain out p1 where
    s: "step c p = Some (out, p1)" "finished p1" "metrics p1 = metrics p"
       "answersTrue [out]" by blast
  from Cons.IH [OF s(2)] obtain outs q where
    r: "run cs p1 = Some (outs, q)" "finished q" "metrics q = metrics p1"
       "answersTrue outs" by blast
  from s r show ?case by (simp add: answersTrue_Cons [of out outs])
qed

lemma run_open:
  assumes "\<not> finished p"
  shows "\<exists>outs q. run cs p = Some (outs, q)
    \<and> (finished q \<longleftrightarrow> (\<exists>r. FinishedReturned True r \<in> set outs))
    \<and> (\<not> finished q \<longrightarrow> metrics q = metrics p)
    \<and> (finished q \<longrightarrow>
          (\<exists>r d. 1 \<le> r \<and> r \<le> 4 \<and> metrics q = observeReason r d (metrics p)))
    \<and> latched outs"
  using assms
proof (induction cs arbitrary: p)
  case Nil
  then show ?case by simp
next
  case (Cons c cs)
  let ?Q = "\<lambda>p outs q. 
      (finished q \<longleftrightarrow> (\<exists>r. FinishedReturned True r \<in> set outs))
    \<and> (\<not> finished q \<longrightarrow> metrics q = metrics p)
    \<and> (finished q \<longrightarrow>
          (\<exists>r d. 1 \<le> r \<and> r \<le> 4 \<and> metrics q = observeReason r d (metrics p)))
    \<and> latched outs"
  have quiet: "\<exists>outs q. run (c # cs) p = Some (outs, q) \<and> ?Q p outs q"
    if s: "step c p = Some (out, p1)" and nf: "\<not> finished p1" and m: "metrics p1 = metrics p"
      and o: "out = NoOutput \<or> out = FinishedReturned False 0 \<or> (\<exists>v. out = ResultReturned v)" for out p1
  proof -
    from Cons.IH [OF nf] obtain outs q where r: "run cs p1 = Some (outs, q)" and q: "?Q p1 outs q"
      by blast
    have "?Q p (out # outs) q"
      using q m o by auto
    with s r show ?thesis by simp
  qed
  show ?case
  proof (cases c)
    case (CallVote vdr vote)
    show ?thesis
      by (rule quiet [of NoOutput "Vote vdr vote p"])
        (use CallVote Cons.prems in \<open>simp_all add: Vote_def Let_def\<close>)
  next
    case (CallDrop vdr)
    show ?thesis
      by (rule quiet [of NoOutput "Drop vdr p"])
        (use CallDrop Cons.prems in \<open>simp_all add: Drop_def\<close>)
  next
    case CallResult
    show ?thesis
      by (rule quiet [of "ResultReturned (Result p)" p])
        (use CallResult Cons.prems in simp_all)
  next
    case (CallFinished now)
    from finishedAndReason_closedWith [of now p] Cons.prems obtain reason where
      f: "finishedAndReason now p = Some ((reason \<noteq> 0, reason), closedWith reason now p)"
      and b: "0 \<le> reason" "reason \<le> 4" by auto
    show ?thesis
    proof (cases "reason = 0")
      case True
      show ?thesis
        by (rule quiet [of "FinishedReturned False 0" p])
          (use CallFinished Cons.prems f True in \<open>simp_all add: closedWith_def\<close>)
    next
      case False
      let ?p1 = "closedWith reason now p"
      have s: "step c p = Some (FinishedReturned True reason, ?p1)"
        using CallFinished f False by simp
      have "finished ?p1" using False by simp
      from run_finished [OF this, of cs] obtain outs q where
        r: "run cs ?p1 = Some (outs, q)" "finished q" "metrics q = metrics ?p1"
           "answersTrue outs" by blast
      have m: "metrics q = observeReason reason (now - start p) (metrics p)"
        using r(3) False by (simp add: metrics_closedWith)
      have "1 \<le> reason" using b False by simp
      with m b have e: "\<exists>r d. 1 \<le> r \<and> r \<le> 4 \<and> metrics q = observeReason r d (metrics p)"
        by blast
      have "?Q p (FinishedReturned True reason # outs) q"
        using r(2,4) e by auto
      with s r(1) show ?thesis by simp
    qed
  qed
qed

lemma run_take:
  "run cs p = Some (outs, q) \<Longrightarrow> \<exists>q'. run (take n cs) p = Some (take n outs, q')"
proof (induction cs arbitrary: p outs n)
  case Nil
  then show ?case by simp
next
  case (Cons c cs)
  show ?case
  proof (cases n)
    case 0
    then show ?thesis by simp
  next
    case (Suc m)
    from Cons.prems obtain out p1 outs1 where
      s: "step c p = Some (out, p1)" and r: "run cs p1 = Some (outs1, q)" and o: "outs = out # outs1"
      by (auto split: option.splits)
    from Cons.IH [OF r, of m] obtain q' where "run (take m cs) p1 = Some (take m outs1, q')"
      by blast
    with s o Suc show ?thesis by simp
  qed
qed

text \<open>
  Claim C6. Once a poll is finished, every later call leaves it finished, every later
  \<^verbatim>\<open>Finished\<close> returns true and the metrics never change again. On a poll that is not
  finished, the answers of \<^verbatim>\<open>Finished\<close> over any sequence of calls are latched, and after
  every prefix of the sequence the metrics are the initial ones as long as no \<^verbatim>\<open>Finished\<close>
  has returned true, and the initial ones plus exactly one observation (one counter
  incremented, one duration added) from the first true answer on.
\<close>

theorem latch_and_single_observation:
  "(finished p \<longrightarrow>
      (\<exists>outs q. run cs p = Some (outs, q) \<and> finished q \<and> metrics q = metrics p
         \<and> answersTrue outs))
   \<and> (\<not> finished p \<longrightarrow>
      (\<exists>outs q. run cs p = Some (outs, q) \<and> latched outs
         \<and> (\<forall>n. \<exists>q'. run (take n cs) p = Some (take n outs, q')
               \<and> (if \<exists>r. FinishedReturned True r \<in> set (take n outs)
                   then finished q'
                     \<and> observations (metrics q') = observations (metrics p) + 1
                     \<and> (\<exists>r d. 1 \<le> r \<and> r \<le> 4 \<and> metrics q' = observeReason r d (metrics p))
                   else \<not> finished q' \<and> metrics q' = metrics p))))"
proof (intro conjI impI)
  assume "finished p"
  then show "\<exists>outs q. run cs p = Some (outs, q) \<and> finished q \<and> metrics q = metrics p
         \<and> answersTrue outs"
    by (rule run_finished)
next
  assume nf: "\<not> finished p"
  from run_open [OF nf, of cs] obtain outs q where
    r: "run cs p = Some (outs, q)" and l: "latched outs" by blast
  have "\<exists>q'. run (take n cs) p = Some (take n outs, q')
               \<and> (if \<exists>r. FinishedReturned True r \<in> set (take n outs)
                   then finished q'
                     \<and> observations (metrics q') = observations (metrics p) + 1
                     \<and> (\<exists>r d. 1 \<le> r \<and> r \<le> 4 \<and> metrics q' = observeReason r d (metrics p))
                   else \<not> finished q' \<and> metrics q' = metrics p)" for n
  proof -
    from run_take [OF r, of n] obtain q' where t: "run (take n cs) p = Some (take n outs, q')"
      by blast
    from run_open [OF nf, of "take n cs"] t
    have f: "finished q' \<longleftrightarrow> (\<exists>r. FinishedReturned True r \<in> set (take n outs))"
      and m: "\<not> finished q' \<longrightarrow> metrics q' = metrics p"
      and o: "finished q' \<longrightarrow>
          (\<exists>r d. 1 \<le> r \<and> r \<le> 4 \<and> metrics q' = observeReason r d (metrics p))"
      by auto
    show ?thesis
    proof (cases "finished q'")
      case True
      with o obtain r d where rd: "1 \<le> r" "r \<le> 4" "metrics q' = observeReason r d (metrics p)"
        by blast
      then have "observations (metrics q') = observations (metrics p) + 1"
        by (simp add: observations_observeReason)
      with t f True rd show ?thesis by auto
    next
      case False
      with t f m show ?thesis by auto
    qed
  qed
  with r l show "\<exists>outs q. run cs p = Some (outs, q) \<and> latched outs
         \<and> (\<forall>n. \<exists>q'. run (take n cs) p = Some (take n outs, q')
               \<and> (if \<exists>r. FinishedReturned True r \<in> set (take n outs)
                   then finished q'
                     \<and> observations (metrics q') = observations (metrics p) + 1
                     \<and> (\<exists>r d. 1 \<le> r \<and> r \<le> 4 \<and> metrics q' = observeReason r d (metrics p))
                   else \<not> finished q' \<and> metrics q' = metrics p))"
    by blast
qed

theorem latch_and_single_observation_witness:
  "\<not> finished examplePoll
   \<and> (\<exists>q. run [CallVote 10 7, CallFinished 120, CallVote 11 7, CallFinished 150,
                 CallVote 12 8, CallFinished 170] examplePoll
          = Some ([NoOutput, FinishedReturned False 0, NoOutput, FinishedReturned True 4,
                   NoOutput, FinishedReturned True 0], q)
        \<and> observations (metrics q) = 1)"
proof -
  let ?cs = "[CallVote 10 7, CallFinished 120, CallVote 11 7, CallFinished 150,
                 CallVote 12 8, CallFinished 170] :: (nat, nat) call list"
  let ?outs = "[NoOutput, FinishedReturned False 0, NoOutput, FinishedReturned True 4,
                   NoOutput, FinishedReturned True 0] :: nat returned list"
  have nf: "\<not> finished examplePoll"
    by (simp add: example_defs)
  have z: "observations (metrics examplePoll) = 0"
    by (simp add: example_defs observations_def noMetrics_def)
  have e: "\<exists>q. run ?cs examplePoll = Some (?outs, q)"
    by (simp add: finishedAndReason_def example_defs)
  from latch_and_single_observation [of examplePoll ?cs] nf obtain outs q where
    r: "run ?cs examplePoll = Some (outs, q)"
    and a: "\<forall>n. \<exists>q'. run (take n ?cs) examplePoll = Some (take n outs, q')
               \<and> (if \<exists>r. FinishedReturned True r \<in> set (take n outs)
                   then finished q'
                     \<and> observations (metrics q') = observations (metrics examplePoll) + 1
                     \<and> (\<exists>r d. 1 \<le> r \<and> r \<le> 4 \<and> metrics q' = observeReason r d (metrics examplePoll))
                   else \<not> finished q' \<and> metrics q' = metrics examplePoll)"
    by blast
  from e r have o: "outs = ?outs" by auto
  have t: "take 6 ?cs = ?cs" by simp
  from a obtain q' where
    q': "run (take 6 ?cs) examplePoll = Some (take 6 outs, q')"
    and c: "if \<exists>r. FinishedReturned True r \<in> set (take 6 outs)
                   then finished q'
                     \<and> observations (metrics q') = observations (metrics examplePoll) + 1
                     \<and> (\<exists>r d. 1 \<le> r \<and> r \<le> 4 \<and> metrics q' = observeReason r d (metrics examplePoll))
                   else \<not> finished q' \<and> metrics q' = metrics examplePoll"
    by blast
  from q' [unfolded t] r have "q' = q" by (simp del: run.simps)
  moreover have "\<exists>r. FinishedReturned True r \<in> set (take 6 outs)"
    unfolding o by (rule exI [of _ 4]) simp
  ultimately have "observations (metrics q) = observations (metrics examplePoll) + 1"
    using c by simp
  with r [unfolded o] z nf show ?thesis by (simp del: run.simps)
qed

section \<open>One threshold as a list of one\<close>

lemma finishedAndReason_single_equiv:
  assumes "confidences p = []"
  shows "\<exists>fin reason q. finishedAndReason now p = Some ((fin, reason), q)
     \<and> confidences q = [] \<and> alphaConfidence q = alphaConfidence p
     \<and> finishedAndReason now (p\<lparr>confidences := [alphaConfidence p]\<rparr>)
         = Some ((fin, reason), q\<lparr>confidences := [alphaConfidence p]\<rparr>)"
  using assms ModeFreq_le_Len [of "votes p"] Len_nonneg [of "polled p"]
  by (auto simp add: finishedAndReason_def Let_def shouldTerminateEarlyErrDriven_eq)

lemma step_single_equiv:
  assumes "confidences p = []"
  shows "\<exists>out q. step c p = Some (out, q)
     \<and> confidences q = [] \<and> alphaConfidence q = alphaConfidence p
     \<and> step c (p\<lparr>confidences := [alphaConfidence p]\<rparr>)
         = Some (out, q\<lparr>confidences := [alphaConfidence p]\<rparr>)"
proof (cases c)
  case (CallFinished now)
  from finishedAndReason_single_equiv [OF assms, of now] CallFinished show ?thesis
    by auto
qed (use assms in \<open>simp_all add: Vote_def Drop_def Result_def Let_def\<close>)

text \<open>
  Claim C7. A poll in single-threshold mode and the same poll with
  \<open>confidences = [alphaConfidence]\<close> answer every sequence of calls alike: the same outputs
  (the answers of \<^verbatim>\<open>Finished\<close> with their reasons, the bags \<^verbatim>\<open>Result\<close> returns), and final
  polls that differ in the field \<open>confidences\<close> only, so with the same tally, the same
  metrics and the same latch. The order \<open>alphaPreference \<le> alphaConfidence\<close> is not needed.
\<close>

theorem single_threshold_equivalence:
  assumes "confidences p = []"
  shows "\<exists>outs q. run cs p = Some (outs, q)
     \<and> run cs (p\<lparr>confidences := [alphaConfidence p]\<rparr>)
         = Some (outs, q\<lparr>confidences := [alphaConfidence p]\<rparr>)
     \<and> Result (q\<lparr>confidences := [alphaConfidence p]\<rparr>) = Result q
     \<and> metrics (q\<lparr>confidences := [alphaConfidence p]\<rparr>) = metrics q
     \<and> finished (q\<lparr>confidences := [alphaConfidence p]\<rparr>) = finished q"
proof -
  have "\<exists>outs q. run cs p = Some (outs, q)
     \<and> confidences q = [] \<and> alphaConfidence q = alphaConfidence p
     \<and> run cs (p\<lparr>confidences := [alphaConfidence p]\<rparr>)
         = Some (outs, q\<lparr>confidences := [alphaConfidence p]\<rparr>)"
    using assms
  proof (induction cs arbitrary: p)
    case Nil
    then show ?case by simp
  next
    case (Cons c cs)
    from step_single_equiv [OF Cons.prems, of c] obtain out p1 where
      s: "step c p = Some (out, p1)" "confidences p1 = []" "alphaConfidence p1 = alphaConfidence p"
        "step c (p\<lparr>confidences := [alphaConfidence p]\<rparr>)
           = Some (out, p1\<lparr>confidences := [alphaConfidence p]\<rparr>)" by blast
    from Cons.IH [OF s(2)] s(3) obtain outs q where
      r: "run cs p1 = Some (outs, q)" "confidences q = []" "alphaConfidence q = alphaConfidence p"
        "run cs (p1\<lparr>confidences := [alphaConfidence p]\<rparr>)
           = Some (outs, q\<lparr>confidences := [alphaConfidence p]\<rparr>)" by auto
    from s r show ?case by simp
  qed
  then show ?thesis by (auto simp: Result_def)
qed

theorem single_threshold_equivalence_witness:
  "confidences examplePoll = []
   \<and> (\<exists>q. run [CallVote 10 7, CallFinished 120, CallVote 11 7, CallFinished 150, CallResult]
              (examplePoll\<lparr>confidences := [2]\<rparr>)
          = Some ([NoOutput, FinishedReturned False 0, NoOutput, FinishedReturned True 4,
                   ResultReturned {#7, 7#}], q))"
proof -
  let ?cs = "[CallVote 10 7, CallFinished 120, CallVote 11 7, CallFinished 150, CallResult]
      :: (nat, nat) call list"
  have h: "confidences examplePoll = []" and a: "alphaConfidence examplePoll = 2"
    by (simp_all add: example_defs)
  have e: "\<exists>q. run ?cs examplePoll
     = Some ([NoOutput, FinishedReturned False 0, NoOutput, FinishedReturned True 4,
              ResultReturned {#7, 7#}], q)"
    by (simp add: finishedAndReason_def Result_def example_defs)
  from single_threshold_equivalence [OF h, of ?cs] obtain outs q where
    "run ?cs examplePoll = Some (outs, q)"
    "run ?cs (examplePoll\<lparr>confidences := [alphaConfidence examplePoll]\<rparr>)
       = Some (outs, q\<lparr>confidences := [alphaConfidence examplePoll]\<rparr>)" by blast
  with e a h show ?thesis by (auto simp del: run.simps)
qed

section \<open>The unused threshold of the error-driven mode\<close>

lemma finishedAndReason_alphaConfidence:
  assumes "confidences p \<noteq> []"
  shows "\<exists>fin reason q. finishedAndReason now p = Some ((fin, reason), q)
     \<and> confidences q = confidences p
     \<and> finishedAndReason now (p\<lparr>alphaConfidence := a\<rparr>)
         = Some ((fin, reason), q\<lparr>alphaConfidence := a\<rparr>)"
  using assms
  by (auto simp add: finishedAndReason_def Let_def shouldTerminateEarlyErrDriven_eq)

lemma step_alphaConfidence:
  assumes "confidences p \<noteq> []"
  shows "\<exists>out q. step c p = Some (out, q)
     \<and> confidences q = confidences p
     \<and> step c (p\<lparr>alphaConfidence := a\<rparr>) = Some (out, q\<lparr>alphaConfidence := a\<rparr>)"
proof (cases c)
  case (CallFinished now)
  from finishedAndReason_alphaConfidence [OF assms, of now a] CallFinished show ?thesis
    by auto
qed (use assms in \<open>simp_all add: Vote_def Drop_def Result_def Let_def\<close>)

lemma run_alphaConfidence:
  assumes "confidences p \<noteq> []"
  shows "\<exists>outs q. run cs p = Some (outs, q)
     \<and> confidences q = confidences p
     \<and> run cs (p\<lparr>alphaConfidence := a\<rparr>) = Some (outs, q\<lparr>alphaConfidence := a\<rparr>)"
  using assms
proof (induction cs arbitrary: p)
  case Nil
  then show ?case by simp
next
  case (Cons c cs)
  from step_alphaConfidence [OF Cons.prems, of c a] obtain out p1 where
    s: "step c p = Some (out, p1)" "confidences p1 = confidences p"
      "step c (p\<lparr>alphaConfidence := a\<rparr>) = Some (out, p1\<lparr>alphaConfidence := a\<rparr>)" by blast
  from s(2) Cons.prems have "confidences p1 \<noteq> []" by simp
  from Cons.IH [OF this] s(2) obtain outs q where
    r: "run cs p1 = Some (outs, q)" "confidences q = confidences p"
      "run cs (p1\<lparr>alphaConfidence := a\<rparr>) = Some (outs, q\<lparr>alphaConfidence := a\<rparr>)" by auto
  from s r show ?case by simp
qed

text \<open>
  Claim C10. With confidences present, \<open>alphaConfidence\<close> is never read: two polls that
  differ in it alone answer every sequence of calls alike and end in polls that again
  differ in it alone. In particular an open poll past the exhausted and early-fail rules
  closes with reason 4 as soon as the mode frequency reaches the last confidence,
  whatever \<open>alphaConfidence\<close> is.
\<close>

theorem alphaConfidence_not_consulted:
  assumes "confidences p \<noteq> []"
  shows "(\<exists>outs q. run cs p = Some (outs, q)
      \<and> run cs (p\<lparr>alphaConfidence := a\<rparr>) = Some (outs, q\<lparr>alphaConfidence := a\<rparr>)
      \<and> Result (q\<lparr>alphaConfidence := a\<rparr>) = Result q
      \<and> metrics (q\<lparr>alphaConfidence := a\<rparr>) = metrics q
      \<and> finished (q\<lparr>alphaConfidence := a\<rparr>) = finished q)
    \<and> (\<not> finished p \<and> Len (polled p) \<noteq> 0
         \<and> alphaPreference p \<le> Len (votes p) + Len (polled p)
         \<and> last (confidences p) \<le> ModeFreq (votes p)
        \<longrightarrow> finishedAndReason now p = Some ((True, 4), closedWith 4 now p))"
proof -
  from run_alphaConfidence [OF assms, of cs a]
  have 1: "\<exists>outs q. run cs p = Some (outs, q)
      \<and> run cs (p\<lparr>alphaConfidence := a\<rparr>) = Some (outs, q\<lparr>alphaConfidence := a\<rparr>)
      \<and> Result (q\<lparr>alphaConfidence := a\<rparr>) = Result q
      \<and> metrics (q\<lparr>alphaConfidence := a\<rparr>) = metrics q
      \<and> finished (q\<lparr>alphaConfidence := a\<rparr>) = finished q"
    by (auto simp: Result_def)
  have 2: "\<not> finished p \<and> Len (polled p) \<noteq> 0
         \<and> alphaPreference p \<le> Len (votes p) + Len (polled p)
         \<and> last (confidences p) \<le> ModeFreq (votes p)
        \<longrightarrow> finishedAndReason now p = Some ((True, 4), closedWith 4 now p)"
    using assms
    by (auto simp add: finishedAndReason_def Let_def shouldTerminateEarlyErrDriven_eq
        closedWith_def observeReason_def)
  from 1 2 show ?thesis by blast
qed

theorem alphaConfidence_not_consulted_witness:
  "confidences (Vote 13 7 (Vote 12 7 (Vote 11 7 (Vote 10 7 errDrivenPoll)))) \<noteq> []
   \<and> ModeFreq (votes (Vote 13 7 (Vote 12 7 (Vote 11 7 (Vote 10 7 errDrivenPoll)))))
       < alphaConfidence (Vote 13 7 (Vote 12 7 (Vote 11 7 (Vote 10 7 errDrivenPoll))))
   \<and> finishedAndReason 150 (Vote 13 7 (Vote 12 7 (Vote 11 7 (Vote 10 7 errDrivenPoll))))
       = Some ((True, 4),
               closedWith 4 150 (Vote 13 7 (Vote 12 7 (Vote 11 7 (Vote 10 7 errDrivenPoll)))))"
proof -
  let ?p = "Vote 13 7 (Vote 12 7 (Vote 11 7 (Vote 10 7 errDrivenPoll)))"
  have h: "confidences ?p \<noteq> []"
    by (simp add: example_defs)
  have v: "\<not> finished ?p" "Len (polled ?p) = 1" "Len (votes ?p) = 4" "ModeFreq (votes ?p) = 4"
    "alphaPreference ?p = 2" "alphaConfidence ?p = 9" "last (confidences ?p) = 4"
    by (simp_all add: example_defs)
  from alphaConfidence_not_consulted [OF h, of "[]" 0 150] v h show ?thesis
    by simp
qed

section \<open>Building the factory\<close>

text \<open>
  Claim C8. \<^verbatim>\<open>NewEarlyTermNoTraversalFactory\<close> returns an error exactly when the registry
  rejects the counter vector \<^verbatim>\<open>poll_count\<close>, or accepts it and rejects the gauge vector
  \<^verbatim>\<open>poll_duration\<close>; the error wraps the matching sentinel and the registry's error. A
  factory that was returned makes, from any bag of validators at any time, an open poll
  with an empty tally and the factory's parameters: \<^verbatim>\<open>New\<close> has no error to return.
\<close>

theorem factory_construction:
  fixes register :: "string \<Rightarrow> 'r \<Rightarrow> 'e + 'r"
  shows "((\<exists>e. NewEarlyTermNoTraversalFactory ap ac register reg confs = Inl e) \<longleftrightarrow>
       (\<exists>err. register ''poll_count'' reg = Inl err)
       \<or> (\<exists>reg1 err. register ''poll_count'' reg = Inr reg1
              \<and> register ''poll_duration'' reg1 = Inl err))
   \<and> (\<forall>err. register ''poll_count'' reg = Inl err \<longrightarrow>
         NewEarlyTermNoTraversalFactory ap ac register reg confs
           = Inl (Wrapped errPollCountVectorMetrics err))
   \<and> (\<forall>reg1 err. register ''poll_count'' reg = Inr reg1
             \<and> register ''poll_duration'' reg1 = Inl err \<longrightarrow>
         NewEarlyTermNoTraversalFactory ap ac register reg confs
           = Inl (Wrapped errPollDurationVectorMetrics err))
   \<and> (\<forall>f reg'. NewEarlyTermNoTraversalFactory ap ac register reg confs = Inr (f, reg') \<longrightarrow>
         (\<forall>vdrs now.
            New f vdrs now =
              \<lparr>votes = {#}, polled = vdrs, alphaPreference = ap, alphaConfidence = ac,
               confidences = confs, metrics = noMetrics, start = now, finished = False\<rparr>))"
  by (auto simp: NewEarlyTermNoTraversalFactory_def newEarlyTermNoTraversalMetrics_def New_def
      split: sum.splits)

theorem factory_construction_witness:
  "NewEarlyTermNoTraversalFactory 2 2 registerName [''poll_count''] []
     = Inl (Wrapped errPollCountVectorMetrics (AlreadyRegistered ''poll_count''))
   \<and> NewEarlyTermNoTraversalFactory 2 2 registerName [''poll_duration''] []
     = Inl (Wrapped errPollDurationVectorMetrics (AlreadyRegistered ''poll_duration''))
   \<and> (\<exists>f. NewEarlyTermNoTraversalFactory 2 2 registerName [] []
            = Inr (f, [''poll_duration'', ''poll_count''])
          \<and> (New f {#10, 11, 12#} 100 :: (nat, nat) earlyTermNoTraversalPoll) = examplePoll)"
proof -
  have c: "registerName ''poll_count'' [''poll_count''] = Inl (AlreadyRegistered ''poll_count'')"
    by (simp add: registerName_def)
  have d: "registerName ''poll_count'' [''poll_duration''] = Inr [''poll_count'', ''poll_duration'']
      \<and> registerName ''poll_duration'' [''poll_count'', ''poll_duration'']
          = Inl (AlreadyRegistered ''poll_duration'')"
    by (simp add: registerName_def)
  have s: "\<exists>f. NewEarlyTermNoTraversalFactory 2 2 registerName [] []
            = Inr (f, [''poll_duration'', ''poll_count''])"
    by (simp add: NewEarlyTermNoTraversalFactory_def newEarlyTermNoTraversalMetrics_def
        registerName_def)
  then obtain f where f: "NewEarlyTermNoTraversalFactory 2 2 registerName [] []
            = Inr (f, [''poll_duration'', ''poll_count''])" by blast
  note t1 = factory_construction [of 2 2 registerName "[''poll_count'']" "[]"]
  note t2 = factory_construction [of 2 2 registerName "[''poll_duration'']" "[]"]
  note t3 = factory_construction [of 2 2 registerName "[]" "[]"]
  from t1 c have 1: "NewEarlyTermNoTraversalFactory 2 2 registerName [''poll_count''] []
     = Inl (Wrapped errPollCountVectorMetrics (AlreadyRegistered ''poll_count''))"
    by blast
  from t2 d have 2: "NewEarlyTermNoTraversalFactory 2 2 registerName [''poll_duration''] []
     = Inl (Wrapped errPollDurationVectorMetrics (AlreadyRegistered ''poll_duration''))"
    by blast
  from t3 f have "(New f {#10, 11, 12#} 100 :: (nat, nat) earlyTermNoTraversalPoll) =
     \<lparr>votes = {#}, polled = {#10, 11, 12#}, alphaPreference = 2, alphaConfidence = 2,
               confidences = [], metrics = noMetrics, start = 100, finished = False\<rparr>"
    by blast
  then have 3: "(New f {#10, 11, 12#} 100 :: (nat, nat) earlyTermNoTraversalPoll) = examplePoll"
    by (simp add: examplePoll_def exampleFactory_def New_def)
  from 1 2 3 f show ?thesis by blast
qed

section \<open>No panic\<close>

lemma errDrivenLoop_total: "0 \<le> i \<Longrightarrow> \<exists>b. errDrivenLoop C freq maxP i = Some b"
  by (simp add: errDrivenLoop_eq)

lemma shouldTerminateEarlyErrDriven_Nil:
  "confidences p = [] \<Longrightarrow> shouldTerminateEarlyErrDriven now freq maxP p = None"
  by (simp add: shouldTerminateEarlyErrDriven_def at_Nil)

text \<open>
  Claim C9. The slice \<^verbatim>\<open>confidences\<close> is read in \<^verbatim>\<open>shouldTerminateEarlyErrDriven\<close> and its
  loop only. The loop reads in range from every index that is not negative;
  \<^verbatim>\<open>shouldTerminateEarlyErrDriven\<close> returns exactly when the slice is not empty, which is
  the guard under which \<^verbatim>\<open>finishedAndReason\<close> calls it. So \<^verbatim>\<open>finishedAndReason\<close> and
  \<^verbatim>\<open>Finished\<close> return on every poll, in both modes, and every sequence of calls runs to
  its end.
\<close>

theorem finished_never_panics:
  "(\<exists>fin reason q. finishedAndReason now p = Some ((fin, reason), q))
   \<and> (\<exists>fin q. Finished now p = Some (fin, q))
   \<and> ((\<exists>r. shouldTerminateEarlyErrDriven now freq maxP p = Some r) \<longleftrightarrow> confidences p \<noteq> [])
   \<and> (0 \<le> i \<longrightarrow> (\<exists>b. errDrivenLoop C freq maxP i = Some b))
   \<and> (\<exists>outs q. run cs p = Some (outs, q))"
proof -
  from finishedAndReason_closedWith [of now p]
  have 1: "\<exists>fin reason q. finishedAndReason now p = Some ((fin, reason), q)" by blast
  then have 2: "\<exists>fin q. Finished now p = Some (fin, q)"
    by (auto simp: Finished_def)
  have 3: "(\<exists>r. shouldTerminateEarlyErrDriven now freq maxP p = Some r) \<longleftrightarrow> confidences p \<noteq> []"
  proof (cases "confidences p = []")
    case True
    then show ?thesis by (simp add: shouldTerminateEarlyErrDriven_Nil)
  next
    case False
    then show ?thesis by (auto simp add: shouldTerminateEarlyErrDriven_eq)
  qed
  have 4: "0 \<le> i \<longrightarrow> (\<exists>b. errDrivenLoop C freq maxP i = Some b)"
    by (simp add: errDrivenLoop_total)
  from run_lengths [of cs p] have 5: "\<exists>outs q. run cs p = Some (outs, q)" by blast
  from 1 2 3 4 5 show ?thesis by blast
qed

theorem finished_never_panics_witness:
  "errDrivenLoop [2, 4] 2 3 0 = Some True
   \<and> shouldTerminateEarlyErrDriven 150 2 3 examplePoll = None
   \<and> Finished 150 examplePoll = Some (False, examplePoll)
   \<and> Finished 150 errDrivenPoll = Some (False, errDrivenPoll)"
proof -
  have z: "(0::int) \<le> 0" by simp
  from finished_never_panics [of 150 examplePoll 2 3 0 "[2, 4]" "[]"] z
  obtain b where b: "errDrivenLoop [2, 4] 2 3 0 = Some b"
    and n: "(\<exists>r. shouldTerminateEarlyErrDriven 150 2 3 examplePoll = Some r)
              \<longleftrightarrow> confidences examplePoll \<noteq> []"
    by blast
  have "confidences examplePoll = []" by (simp add: example_defs)
  with n have 1: "shouldTerminateEarlyErrDriven 150 2 3 examplePoll = None"
    by (cases "shouldTerminateEarlyErrDriven 150 2 3 examplePoll") auto
  have "errDrivenLoop [2, 4] 2 3 0 = Some True"
    by (simp add: errDrivenLoop.simps at_def)
  moreover have "Finished 150 examplePoll = Some (False, examplePoll)"
    by (simp add: Finished_def finishedAndReason_def example_defs)
  moreover have "Finished 150 errDrivenPoll = Some (False, errDrivenPoll)"
    by (simp add: Finished_def finishedAndReason_def shouldTerminateEarlyErrDriven_def at_def
        errDrivenLoop.simps example_defs)
  ultimately show ?thesis using 1 by simp
qed

end
